theory Spec2Isabelle
  imports Complex_Main "HOL-Library.Multiset"
begin

section \<open>PyTarot: the deck, the spread and the reading session\<close>

text \<open>
  A shallow embedding of \<^verbatim>\<open>pytarot.py\<close>. Card objects live in a store and are named
  by references, because the deck and the spread hold the same \<^verbatim>\<open>TrCard\<close> objects and
  both \<^verbatim>\<open>shuffle\<close> and \<^verbatim>\<open>add_card\<close> mutate them in place. Every function takes the
  state it mutates and returns it updated, together with the exception it raised, if any;
  the state returned beside an exception is the state at the moment it was raised.
  Coordinates are Python numbers (\<^verbatim>\<open>0\<close>, \<^verbatim>\<open>1.5\<close>, \<^verbatim>\<open>240\<close>); they are rationals here, which
  is what Python computes on the catalogue's values (halves and small integers).
\<close>

subsection \<open>Configuration\<close>

type_synonym sprd_entry = "rat \<times> rat \<times> string"

definition SPREAD_DEFN :: "(string \<times> sprd_entry list) list" where
  "SPREAD_DEFN =
    [(''3 Card Simple Quick'',
        [(0, 3/2, ''1. Past''),
         (3/2, 3/2, ''2. Present''),
         (3, 3/2, ''3. Future'')]),
     (''10 Card Celtic Cross'',
        [(1, 1, ''1. Situation's heart, atmosphere''),
         (1, 2, ''2. Crossing challenges''),
         (1, 0, ''3. Crowning ideal or goal''),
         (1, 3, ''4. Root foundation''),
         (0, 3/2, ''5. Past influence''),
         (2, 3/2, ''6. Near future''),
         (3, 3, ''7. Attitude facing concerns''),
         (3, 2, ''8. Environment's effects''),
         (3, 1, ''9. Deep desires, fears''),
         (3, 0, ''10. Culmination, outcome'')])]"

definition SPREAD_DEFAULT :: string where
  "SPREAD_DEFAULT = ''10 Card Celtic Cross''"

definition MIN_REV :: nat where
  "MIN_REV = 0"

definition MAX_REV :: nat where
  "MAX_REV = 39"

definition REV_WORD :: string where
  "REV_WORD = ''Reversed''"

definition CELL_SZ :: "rat list" where
  "CELL_SZ = [240, 150]"

definition CELL_PAD :: rat where
  "CELL_PAD = 10"

subsection \<open>Exceptions and the loop over a range\<close>

datatype error = IndexError | KeyError string | NameError string | TypeError

type_synonym 's outcome = "'s \<times> (error + unit)"

text \<open>
  \<^verbatim>\<open>for i in range(n): body\<close> is \<open>for_each [0..<n] body\<close>: the body runs on each index in
  turn and the first exception ends the loop.
\<close>

fun for_each :: "nat list \<Rightarrow> (nat \<Rightarrow> 's \<Rightarrow> 's outcome) \<Rightarrow> 's \<Rightarrow> 's outcome" where
  "for_each [] body s = (s, Inr ())"
| "for_each (i # is) body s =
     (case body i s of
        (s', Inl e) \<Rightarrow> (s', Inl e)
      | (s', Inr _) \<Rightarrow> for_each is body s')"

subsection \<open>Cards\<close>

record TrCard =
  card_name :: string
  card_code :: string
  keywd_up :: string
  keywd_rev :: string
  is_rev :: bool
  min_coord :: "rat option \<times> rat option"
  max_coord :: "rat option \<times> rat option"
  rdg_note :: string

definition TrCard_init :: "string \<Rightarrow> string \<Rightarrow> string \<Rightarrow> string \<Rightarrow> TrCard" where
  "TrCard_init cnm ccd kwu kwr =
     \<lparr>card_name = cnm, card_code = ccd, keywd_up = kwu, keywd_rev = kwr,
      is_rev = False, min_coord = (None, None), max_coord = (None, None),
      rdg_note = ''''\<rparr>"

definition TrCard_str :: "TrCard \<Rightarrow> string" where
  "TrCard_str self =
     (if is_rev self then card_name self @ '' '' @ REV_WORD else card_name self)"

type_synonym ref = nat

type_synonym store = "ref \<Rightarrow> TrCard"

subsection \<open>The random module\<close>

text \<open>
  Python's \<^verbatim>\<open>random\<close> module is a library; the deck only needs that it can be seeded with
  a string and then asked for integers below a bound. It is a parameter: a seeding
  function and \<^verbatim>\<open>_randbelow\<close>, which returns the number drawn and the generator's next
  state. \<open>randbelow_ok\<close> is the library's contract that the number is below the bound.
\<close>

record 'g random =
  seed :: "string \<Rightarrow> 'g"
  randbelow :: "nat \<Rightarrow> 'g \<Rightarrow> nat \<times> 'g"

definition randbelow_ok :: "'g random \<Rightarrow> bool" where
  "randbelow_ok R = (\<forall>n g. 0 < n \<longrightarrow> fst (randbelow R n g) < n)"

text \<open>
  \<^verbatim>\<open>randint(a, b)\<close> is \<^verbatim>\<open>a + _randbelow(b - a + 1)\<close>; the program calls it with
  \<open>MIN_REV \<le> MAX_REV\<close> only, where the library does not raise.
\<close>

definition randint :: "'g random \<Rightarrow> nat \<Rightarrow> nat \<Rightarrow> 'g \<Rightarrow> nat \<times> 'g" where
  "randint R a b g = (case randbelow R (b - a + 1) g of (r, g') \<Rightarrow> (a + r, g'))"

text \<open>
  \<^verbatim>\<open>random.shuffle(x)\<close> is the library's loop
  \<^verbatim>\<open>for i in reversed(range(1, len(x))): j = _randbelow(i + 1); x[i], x[j] = x[j], x[i]\<close>.
\<close>

fun shuffle_loop :: "(nat \<Rightarrow> 'g \<Rightarrow> nat \<times> 'g) \<Rightarrow> nat \<Rightarrow> 'a list \<Rightarrow> 'g \<Rightarrow> 'a list \<times> 'g" where
  "shuffle_loop rb 0 x g = (x, g)"
| "shuffle_loop rb (Suc k) x g =
     (case rb (Suc (Suc k)) g of
        (j, g') \<Rightarrow> shuffle_loop rb k (x[Suc k := x ! j, j := x ! Suc k]) g')"

definition random_shuffle :: "'g random \<Rightarrow> 'a list \<Rightarrow> 'g \<Rightarrow> 'a list \<times> 'g" where
  "random_shuffle R x g = shuffle_loop (randbelow R) (length x - 1) x g"

text \<open>A small congruential generator, to run the model on concrete decks.\<close>

definition lcg :: "nat random" where
  "lcg = \<lparr>seed = length, randbelow = (\<lambda>n g. (g mod n, (5 * g + 3) mod 16))\<rparr>"

subsection \<open>The deck\<close>

record TrDeck =
  deck :: "ref list"

definition TrDeck_init :: TrDeck where
  "TrDeck_init = \<lparr>deck = []\<rparr>"

definition toggle :: "TrCard \<Rightarrow> TrCard" where
  "toggle c = c\<lparr>is_rev := \<not> is_rev c\<rparr>"

text \<open>The body of the reversal loop: \<^verbatim>\<open>self.deck[i_card].is_rev = not self.deck[i_card].is_rev\<close>.\<close>

definition reverse_card :: "ref list \<Rightarrow> nat \<Rightarrow> store \<Rightarrow> store outcome" where
  "reverse_card d i_card st =
     (if i_card < length d
      then (st(d ! i_card := toggle (st (d ! i_card))), Inr ())
      else (st, Inl IndexError))"

text \<open>The first two statements of \<^verbatim>\<open>shuffle\<close>: seed the generator, draw \<^verbatim>\<open>n_rev\<close>.\<close>

definition draw_n_rev :: "'g random \<Rightarrow> string \<Rightarrow> nat \<times> 'g" where
  "draw_n_rev R qry_hash = randint R MIN_REV MAX_REV (seed R qry_hash)"

definition shuffle :: "'g random \<Rightarrow> string \<Rightarrow> store \<times> TrDeck \<Rightarrow> (store \<times> TrDeck) outcome" where
  "shuffle R qry_hash s =
     (case s of (st, self) \<Rightarrow>
        (case draw_n_rev R qry_hash of (n_rev, g1) \<Rightarrow>
           (case random_shuffle R (deck self) g1 of (d1, g2) \<Rightarrow>
              (case for_each [0..<n_rev] (reverse_card d1) st of
                 (st1, Inl e) \<Rightarrow> ((st1, self\<lparr>deck := d1\<rparr>), Inl e)
               | (st1, Inr _) \<Rightarrow>
                   (case random_shuffle R d1 g2 of
                      (d2, g3) \<Rightarrow> ((st1, self\<lparr>deck := d2\<rparr>), Inr ()))))))"

text \<open>
  Observations of a shuffle that the theorems speak of: the number of reversals drawn,
  the order of the deck after the first \<^verbatim>\<open>random.shuffle\<close>, the card values a deck holds
  in order, and the fields of a card that name it.
\<close>

definition n_rev_drawn :: "'g random \<Rightarrow> string \<Rightarrow> nat" where
  "n_rev_drawn R qry_hash = fst (draw_n_rev R qry_hash)"

definition first_order :: "'g random \<Rightarrow> string \<Rightarrow> ref list \<Rightarrow> ref list" where
  "first_order R qry_hash d = fst (random_shuffle R d (snd (draw_n_rev R qry_hash)))"

definition deck_cards :: "store \<times> TrDeck \<Rightarrow> TrCard list" where
  "deck_cards s = map (fst s) (deck (snd s))"

definition identity :: "TrCard \<Rightarrow> string \<times> string \<times> string \<times> string" where
  "identity c = (card_name c, card_code c, keywd_up c, keywd_rev c)"

subsection \<open>The spread\<close>

record TrSpread = TrDeck +
  sprd_name :: string

definition TrSpread_init :: "string \<Rightarrow> TrSpread" where
  "TrSpread_init spnm = \<lparr>deck = [], sprd_name = spnm\<rparr>"

definition add_card ::
  "ref \<Rightarrow> rat \<Rightarrow> rat \<Rightarrow> rat \<Rightarrow> rat \<Rightarrow> store \<times> TrSpread \<Rightarrow> store \<times> TrSpread" where
  "add_card ref_card min_x min_y max_x max_y s =
     (case s of (st, self) \<Rightarrow>
        (st(ref_card := (st ref_card)\<lparr>min_coord := (Some min_x, Some min_y),
                                      max_coord := (Some max_x, Some max_y)\<rparr>),
         self\<lparr>deck := deck self @ [ref_card]\<rparr>))"

subsection \<open>The window: the reading session\<close>

text \<open>
  The fields of \<^verbatim>\<open>WinTr\<close> that hold the reading, with the store of card objects.
  \<open>pop_note\<close> lists the cards for which a note dialogue was opened, oldest first; the
  canvas and the other widgets are not modelled.
\<close>

record WinTr =
  cards :: store
  tr_deck :: TrDeck
  tr_qry :: string
  tr_datetime :: string
  tr_sprd :: TrSpread
  at_card_ix :: "nat option"
  strv_sprd :: string
  strv_note :: string
  pop_note :: "ref list"

text \<open>
  The comparisons of \<^verbatim>\<open>on_click\<close>. A card that was never placed has \<^verbatim>\<open>None\<close>
  coordinates, and Python 3 raises \<^verbatim>\<open>TypeError\<close> on comparing a number with \<^verbatim>\<open>None\<close>;
  \<^verbatim>\<open>and\<close> evaluates its right operand only when the left one is true.
\<close>

definition py_gt :: "int \<Rightarrow> rat option \<Rightarrow> error + bool" where
  "py_gt a m = (case m of None \<Rightarrow> Inl TypeError | Some v \<Rightarrow> Inr (v < of_int a))"

definition py_lt :: "int \<Rightarrow> rat option \<Rightarrow> error + bool" where
  "py_lt a m = (case m of None \<Rightarrow> Inl TypeError | Some v \<Rightarrow> Inr (of_int a < v))"

definition py_and :: "error + bool \<Rightarrow> error + bool \<Rightarrow> error + bool" where
  "py_and a b = (case a of Inl e \<Rightarrow> Inl e | Inr t \<Rightarrow> if t then b else Inr False)"

definition inside :: "int \<times> int \<Rightarrow> TrCard \<Rightarrow> error + bool" where
  "inside event i_card =
     (case event of (x, y) \<Rightarrow>
        (case min_coord i_card of (min_x, min_y) \<Rightarrow>
           (case max_coord i_card of (max_x, max_y) \<Rightarrow>
              py_and (py_gt x min_x)
                (py_and (py_lt x max_x)
                   (py_and (py_gt y min_y) (py_lt y max_y))))))"

definition popup_card_note :: "WinTr \<Rightarrow> WinTr outcome" where
  "popup_card_note w =
     (case at_card_ix w of
        None \<Rightarrow> (w, Inl TypeError)
      | Some ix \<Rightarrow>
          if ix < length (deck (tr_sprd w))
          then (w\<lparr>pop_note := pop_note w @ [deck (tr_sprd w) ! ix]\<rparr>, Inr ())
          else (w, Inl IndexError))"

definition click_card :: "int \<times> int \<Rightarrow> nat \<Rightarrow> WinTr \<Rightarrow> WinTr outcome" where
  "click_card event i_card_ix w =
     (case inside event (cards w (deck (tr_sprd w) ! i_card_ix)) of
        Inl e \<Rightarrow> (w, Inl e)
      | Inr hit \<Rightarrow>
          if hit then popup_card_note (w\<lparr>at_card_ix := Some i_card_ix\<rparr>)
          else (w, Inr ()))"

definition on_click :: "int \<times> int \<Rightarrow> WinTr \<Rightarrow> WinTr outcome" where
  "on_click event w = for_each [0..<length (deck (tr_sprd w))] (click_card event) w"

text \<open>
  One iteration of the dealing loop of \<^verbatim>\<open>show_spread\<close>: the card is read from the deck
  first (\<^verbatim>\<open>IndexError\<close> when the deck is too short), then added to the spread with its
  region.
\<close>

definition deal_card :: "sprd_entry list \<Rightarrow> nat \<Rightarrow> WinTr \<Rightarrow> WinTr outcome" where
  "deal_card sprd_config i_card w =
     (case sprd_config ! i_card of (col, row, txt) \<Rightarrow>
        let i_x = col * (CELL_SZ ! 0) + CELL_PAD;
            i_y = row * (CELL_SZ ! 1) + CELL_PAD
        in if i_card < length (deck (tr_deck w))
           then (case add_card (deck (tr_deck w) ! i_card) i_x i_y
                        (i_x + (CELL_SZ ! 0) - 2 * CELL_PAD)
                        (i_y + (CELL_SZ ! 1) - 2 * CELL_PAD)
                        (cards w, tr_sprd w) of
                   (st, sp) \<Rightarrow> (w\<lparr>cards := st, tr_sprd := sp\<rparr>, Inr ()))
           else (w, Inl IndexError))"

definition show_spread :: "WinTr \<Rightarrow> WinTr outcome" where
  "show_spread w =
     (case map_of SPREAD_DEFN (strv_sprd w) of
        None \<Rightarrow> (w, Inl (KeyError (strv_sprd w)))
      | Some sprd_config \<Rightarrow>
          for_each [0..<length sprd_config] (deal_card sprd_config)
            (w\<lparr>tr_sprd := (tr_sprd w)\<lparr>sprd_name := strv_sprd w\<rparr>\<rparr>))"

text \<open>
  The region the specification gives a placement: its origin and its extent, from the
  definition entry, the cell size and the cell padding. It is written from the
  specification's formula, to be compared with what \<^verbatim>\<open>show_spread\<close> computes.
\<close>

definition spec_region :: "rat \<Rightarrow> rat \<Rightarrow> rat \<Rightarrow> sprd_entry \<Rightarrow> (rat \<times> rat) \<times> (rat \<times> rat)" where
  "spec_region cell_width cell_height cell_pad entry =
     (case entry of (column_units, row_units, label) \<Rightarrow>
        let origin_x = column_units * cell_width + cell_pad;
            origin_y = row_units * cell_height + cell_pad
        in ((origin_x, origin_y),
            (origin_x + (cell_width - 2 * cell_pad), origin_y + (cell_height - 2 * cell_pad))))"

text \<open>
  The part of \<^verbatim>\<open>popup_shuffle\<close> that touches the reading: the clock's reading \<open>now\<close>
  becomes the reading's date and time, and the deck is shuffled on query and date.
\<close>

definition popup_shuffle :: "'g random \<Rightarrow> string \<Rightarrow> WinTr \<Rightarrow> WinTr outcome" where
  "popup_shuffle R now w =
     (case shuffle R (tr_qry w @ now) (cards w, tr_deck w) of
        ((st, d), r) \<Rightarrow> (w\<lparr>cards := st, tr_deck := d, tr_datetime := now\<rparr>, r))"

text \<open>
  \<^verbatim>\<open>prompt_quit\<close> reads the name \<^verbatim>\<open>sprd_config\<close>, which it never assigns, so Python looks
  it up among the module's global names. \<open>module_globals\<close> lists every name the module
  binds at top level, in source order, with its value when that is a list of positions;
  no name is bound to one (\<^verbatim>\<open>SPREAD_DEFN\<close> is a dictionary of them), and \<^verbatim>\<open>sprd_config\<close>
  is assigned in \<^verbatim>\<open>show_spread\<close> only, as a local. \<^verbatim>\<open>prompt_quit\<close> looks up no other name
  for the loop, so its branch for a name bound to another kind of value is never taken.
\<close>

datatype binding = Positions "sprd_entry list" | Other

definition module_globals :: "(string \<times> binding) list" where
  "module_globals =
    [(''csv'', Other), (''os'', Other), (''random'', Other), (''sys'', Other),
     (''time'', Other), (''tk'', Other), (''filedialog'', Other),
     (''simpledialog'', Other), (''tkfont'', Other), (''TXT_HELP'', Other),
     (''SPREAD_DEFN'', Other), (''SPREAD_OPTION'', Other), (''SPREAD_DEFAULT'', Other),
     (''CARD_FILE'', Other), (''DEAL_PAUSE'', Other), (''MIN_REV'', Other),
     (''MAX_REV'', Other), (''REV_WORD'', Other), (''BTN_WIDTH'', Other),
     (''BTN_SQUEEZE'', Other), (''CELL_SZ'', Other), (''CELL_PAD'', Other),
     (''CNV_SZ'', Other), (''datetime_str'', Other), (''TrCard'', Other),
     (''TrDeck'', Other), (''TrSpread'', Other), (''WinTr'', Other), (''root'', Other),
     (''app_gui'', Other)]"

text \<open>One iteration of the export loop; the state is the list of rows written so far.\<close>

definition export_row :: "sprd_entry list \<Rightarrow> WinTr \<Rightarrow> nat \<Rightarrow> string list list \<Rightarrow> string list list outcome" where
  "export_row sprd_config w i_card rows =
     (case sprd_config ! i_card of (col, row, txt) \<Rightarrow>
        if i_card < length (deck (tr_deck w))
        then let c = cards w (deck (tr_deck w) ! i_card)
             in (rows @ [[txt, if is_rev c then card_name c @ '' '' @ REV_WORD else card_name c]],
                 Inr ())
        else (rows, Inl IndexError))"

text \<open>
  \<^verbatim>\<open>prompt_quit\<close>, given the file name the dialogue returned. It returns the rows written
  to the file (\<open>None\<close> when no file was opened) and the exception raised, if any. The file
  is taken to open and accept rows.
\<close>

definition prompt_quit :: "string \<Rightarrow> WinTr \<Rightarrow> string list list option \<times> (error + unit)" where
  "prompt_quit f_name w =
     (if f_name = '''' then (None, Inr ())
      else
        let header = [[''PyTarot reading'', strv_sprd w, tr_datetime w, tr_qry w]]
        in (case map_of module_globals ''sprd_config'' of
              None \<Rightarrow> (Some header, Inl (NameError ''sprd_config''))
            | Some Other \<Rightarrow> (Some header, Inl TypeError)
            | Some (Positions sprd_config) \<Rightarrow>
                (case for_each [0..<length sprd_config] (export_row sprd_config w) header of
                   (rows, r) \<Rightarrow> (Some rows, r))))"

subsection \<open>A sample session\<close>

text \<open>
  \<^verbatim>\<open>WinTr.__init__\<close>, given the store and the deck that \<^verbatim>\<open>fill_deck\<close> built and the
  clock's reading.
\<close>

definition WinTr_init :: "store \<Rightarrow> TrDeck \<Rightarrow> string \<Rightarrow> WinTr" where
  "WinTr_init st d now =
     \<lparr>cards = st, tr_deck = d, tr_qry = '''', tr_datetime = now,
      tr_sprd = TrSpread_init SPREAD_DEFAULT, at_card_ix = None,
      strv_sprd = SPREAD_DEFAULT, strv_note = '''', pop_note = []\<rparr>"

text \<open>
  A freshly loaded deck: card \<open>r\<close> is named and coded by \<open>r + 1\<close> tally marks, and
  every card is upright and unplaced.
\<close>

definition sample_store :: store where
  "sample_store r =
     TrCard_init (replicate (Suc r) CHR ''I'') (replicate (Suc r) CHR ''I'') ''up'' ''down''"

definition sample_session :: WinTr where
  "sample_session =
     (WinTr_init sample_store \<lparr>deck = [0, 1, 2, 3]\<rparr> ''2021-04-07 12:00:00'')
       \<lparr>tr_qry := ''What should I do next?'', strv_sprd := ''3 Card Simple Quick''\<rparr>"

text \<open>
  Scenes of the sample session: the three-card spread dealt once; dealt a second time
  straight away; the deck reshuffled after the first deal, and the spread dealt again
  after that; a reading in the documented order, shuffle and then deal; and the ten-card
  spread chosen after the first deal, for a deck of four.
\<close>

definition dealt_once :: WinTr where
  "dealt_once = fst (show_spread sample_session)"

definition dealt_twice :: WinTr where
  "dealt_twice = fst (show_spread dealt_once)"

definition reshuffled :: WinTr where
  "reshuffled = fst (popup_shuffle lcg ''2021-04-07 12:05:00'' dealt_once)"

definition dealt_again :: WinTr where
  "dealt_again = fst (show_spread reshuffled)"

definition reading :: WinTr where
  "reading = fst (show_spread (fst (popup_shuffle lcg ''2021-04-07 12:05:00'' sample_session)))"

definition ten_chosen :: WinTr where
  "ten_chosen = dealt_once\<lparr>strv_sprd := ''10 Card Celtic Cross''\<rparr>"

section \<open>Export\<close>

text \<open>
  C3. Whatever the session holds, once a file name is chosen the export writes the header
  row and nothing more, and ends in \<^verbatim>\<open>NameError\<close> for \<^verbatim>\<open>sprd_config\<close>: the name is local
  to \<^verbatim>\<open>show_spread\<close> and bound neither in \<^verbatim>\<open>prompt_quit\<close> nor at module level. The export
  never completes.
\<close>

theorem prompt_quit_unbound:
  "f_name \<noteq> '''' \<Longrightarrow>
   prompt_quit f_name w =
     (Some [[''PyTarot reading'', strv_sprd w, tr_datetime w, tr_qry w]],
      Inl (NameError ''sprd_config''))"
  by (simp add: prompt_quit_def module_globals_def)

theorem prompt_quit_unbound_witness:
  "''reading.csv'' \<noteq> '''' \<and>
   snd (show_spread sample_session) = Inr () \<and>
   prompt_quit ''reading.csv'' dealt_once =
     (Some [[''PyTarot reading'', ''3 Card Simple Quick'', ''2021-04-07 12:00:00'',
             ''What should I do next?'']],
      Inl (NameError ''sprd_config''))"
proof -
  have ne: "''reading.csv'' \<noteq> ''''"
    by simp
  have ok: "snd (show_spread sample_session) = Inr ()"
    by code_simp
  have f: "strv_sprd dealt_once = ''3 Card Simple Quick''"
    "tr_datetime dealt_once = ''2021-04-07 12:00:00''"
    "tr_qry dealt_once = ''What should I do next?''"
    by code_simp+
  have "prompt_quit ''reading.csv'' dealt_once =
     (Some [[''PyTarot reading'', ''3 Card Simple Quick'', ''2021-04-07 12:00:00'',
             ''What should I do next?'']],
      Inl (NameError ''sprd_config''))"
    using prompt_quit_unbound [OF ne, of dealt_once] by (simp only: f)
  with ne ok show ?thesis
    by (intro conjI)
qed

section \<open>Loops and the library shuffle\<close>

lemma for_each_append:
  "for_each (xs @ ys) body s =
     (case for_each xs body s of
        (s', Inl e) \<Rightarrow> (s', Inl e)
      | (s', Inr u) \<Rightarrow> for_each ys body s')"
  by (induction xs arbitrary: s) (auto split: prod.splits sum.splits)

lemma for_each_snoc:
  "for_each [0..<Suc n] body s =
     (case for_each [0..<n] body s of
        (s', Inl e) \<Rightarrow> (s', Inl e)
      | (s', Inr u) \<Rightarrow> body n s')"
  by (simp add: for_each_append split: prod.splits sum.splits)

lemma shuffle_loop_length:
  "length (fst (shuffle_loop rb k x g)) = length x"
  by (induction k arbitrary: x g) (auto split: prod.splits)

lemma shuffle_loop_mset:
  assumes ok: "\<forall>n g. 0 < n \<longrightarrow> fst (rb n g) < n"
  shows "k < length x \<Longrightarrow> mset (fst (shuffle_loop rb k x g)) = mset x"
proof (induction k arbitrary: x g)
  case 0
  then show ?case by simp
next
  case (Suc k)
  obtain j g' where jg: "rb (Suc (Suc k)) g = (j, g')"
    by (cases "rb (Suc (Suc k)) g")
  from ok have "fst (rb (Suc (Suc k)) g) < Suc (Suc k)"
    by simp
  with jg have j: "j < length x"
    using Suc.prems by simp
  have sw: "mset (x[Suc k := x ! j, j := x ! Suc k]) = mset x"
    using mset_swap [OF j Suc.prems] .
  have "k < length (x[Suc k := x ! j, j := x ! Suc k])"
    using Suc.prems by simp
  from Suc.IH [OF this] sw jg show ?case
    by simp
qed

lemma shuffle_loop_map:
  assumes ok: "\<forall>n g. 0 < n \<longrightarrow> fst (rb n g) < n"
  shows "k < length x \<Longrightarrow>
    shuffle_loop rb k (map f x) g =
      (map f (fst (shuffle_loop rb k x g)), snd (shuffle_loop rb k x g))"
proof (induction k arbitrary: x g)
  case 0
  then show ?case by simp
next
  case (Suc k)
  obtain j g' where jg: "rb (Suc (Suc k)) g = (j, g')"
    by (cases "rb (Suc (Suc k)) g")
  from ok have "fst (rb (Suc (Suc k)) g) < Suc (Suc k)"
    by simp
  with jg have j: "j < length x"
    using Suc.prems by simp
  have sw: "(map f x)[Suc k := map f x ! j, j := map f x ! Suc k] =
      map f (x[Suc k := x ! j, j := x ! Suc k])"
    using j Suc.prems by (simp add: map_update)
  have "k < length (x[Suc k := x ! j, j := x ! Suc k])"
    using Suc.prems by simp
  from Suc.IH [OF this] sw jg show ?case
    by simp
qed

lemma random_shuffle_mset:
  "randbelow_ok R \<Longrightarrow> mset (fst (random_shuffle R x g)) = mset x"
  by (cases x) (simp_all add: random_shuffle_def randbelow_ok_def shuffle_loop_mset)

lemma random_shuffle_length:
  "length (fst (random_shuffle R x g)) = length x"
  by (simp add: random_shuffle_def shuffle_loop_length)

lemma random_shuffle_map:
  "randbelow_ok R \<Longrightarrow>
   random_shuffle R (map f x) g =
     (map f (fst (random_shuffle R x g)), snd (random_shuffle R x g))"
proof (cases x)
  case Nil
  then show ?thesis by (simp add: random_shuffle_def)
next
  case (Cons a list)
  assume "randbelow_ok R"
  then have ok: "\<forall>n g. 0 < n \<longrightarrow> fst (randbelow R n g) < n"
    by (simp add: randbelow_ok_def)
  have "length x - 1 < length x"
    using Cons by simp
  from shuffle_loop_map [OF ok this] show ?thesis
    by (simp add: random_shuffle_def)
qed

lemma random_shuffle_state:
  assumes "randbelow_ok R" "length x = length y"
  shows "snd (random_shuffle R x g) = snd (random_shuffle R y g)"
proof -
  have "map (\<lambda>_. ()) x = map (\<lambda>_. ()) y"
    using assms(2) by (simp add: map_replicate_const)
  then have "random_shuffle R (map (\<lambda>_. ()) x) g = random_shuffle R (map (\<lambda>_. ()) y) g"
    by simp
  then show ?thesis
    using assms(1) by (simp add: random_shuffle_map)
qed

lemma random_shuffle_positions:
  assumes "randbelow_ok R"
  shows "fst (random_shuffle R x g) =
    map (\<lambda>i. x ! i) (fst (random_shuffle R [0..<length x] g))"
proof -
  have "random_shuffle R (map (\<lambda>i. x ! i) [0..<length x]) g =
      (map (\<lambda>i. x ! i) (fst (random_shuffle R [0..<length x] g)),
       snd (random_shuffle R [0..<length x] g))"
    using assms by (rule random_shuffle_map)
  then show ?thesis
    by (simp add: map_nth)
qed

section \<open>The shuffle\<close>

lemma nth_notin_take:
  "distinct d \<Longrightarrow> n < length d \<Longrightarrow> d ! n \<notin> set (take n d)"
  by (auto simp: in_set_conv_nth nth_eq_iff_index_eq)

lemma reverse_loop:
  assumes "distinct d"
  shows "for_each [0..<n] (reverse_card d) st =
     ((\<lambda>r. if r \<in> set (take n d) then toggle (st r) else st r),
      if n \<le> length d then Inr () else Inl IndexError)"
proof (induction n)
  case 0
  then show ?case by simp
next
  case (Suc n)
  show ?case
  proof (cases "n < length d")
    case True
    have fresh: "d ! n \<notin> set (take n d)"
      using assms True by (rule nth_notin_take)
    have "(\<lambda>r. if r \<in> set (take n d) then toggle (st r) else st r)
            (d ! n := toggle (st (d ! n))) =
          (\<lambda>r. if r \<in> set (take (Suc n) d) then toggle (st r) else st r)"
      using True by (auto simp: take_Suc_conv_app_nth fun_eq_iff)
    moreover have "reverse_card d n (\<lambda>r. if r \<in> set (take n d) then toggle (st r) else st r) =
        ((\<lambda>r. if r \<in> set (take n d) then toggle (st r) else st r)
            (d ! n := toggle (st (d ! n))), Inr ())"
      using True fresh by (simp add: reverse_card_def)
    ultimately show ?thesis
      using Suc True unfolding for_each_snoc by simp
  next
    case False
    then have "take (Suc n) d = take n d"
      by simp
    moreover have "reverse_card d n s = (s, Inl IndexError)" for s
      using False by (simp add: reverse_card_def)
    ultimately show ?thesis
      using Suc False unfolding for_each_snoc by auto
  qed
qed

lemma reverse_loop_frame:
  "\<exists>b. fst (for_each ns (reverse_card d) st) r = (st r)\<lparr>is_rev := b\<rparr>"
proof (induction ns arbitrary: st)
  case Nil
  have "st r = (st r)\<lparr>is_rev := is_rev (st r)\<rparr>"
    by simp
  then show ?case
    by (metis for_each.simps(1) fst_conv)
next
  case (Cons i ns)
  show ?case
  proof (cases "i < length d")
    case True
    let ?st1 = "st(d ! i := toggle (st (d ! i)))"
    from Cons [of ?st1] obtain b where
      b: "fst (for_each ns (reverse_card d) ?st1) r = (?st1 r)\<lparr>is_rev := b\<rparr>"
      by blast
    have "(?st1 r)\<lparr>is_rev := b\<rparr> = (st r)\<lparr>is_rev := b\<rparr>"
      by (simp add: toggle_def)
    moreover have "reverse_card d i st = (?st1, Inr ())"
      using True by (simp add: reverse_card_def)
    ultimately have "fst (for_each (i # ns) (reverse_card d) st) r = (st r)\<lparr>is_rev := b\<rparr>"
      using b by simp
    then show ?thesis
      by blast
  next
    case False
    have "st r = (st r)\<lparr>is_rev := is_rev (st r)\<rparr>"
      by simp
    moreover have "reverse_card d i st = (st, Inl IndexError)"
      using False by (simp add: reverse_card_def)
    ultimately have "fst (for_each (i # ns) (reverse_card d) st) r =
        (st r)\<lparr>is_rev := is_rev (st r)\<rparr>"
      by simp
    then show ?thesis
      by blast
  qed
qed

lemma shuffle_eq:
  "shuffle R q (st, self) =
    (let n = n_rev_drawn R q;
         d1 = first_order R q (deck self);
         g2 = snd (random_shuffle R (deck self) (snd (draw_n_rev R q)));
         lp = for_each [0..<n] (reverse_card d1) st
     in case snd lp of
          Inl e \<Rightarrow> ((fst lp, self\<lparr>deck := d1\<rparr>), Inl e)
        | Inr u \<Rightarrow> ((fst lp, self\<lparr>deck := fst (random_shuffle R d1 g2)\<rparr>), Inr ()))"
  by (auto simp: shuffle_def n_rev_drawn_def first_order_def Let_def
      split: prod.splits sum.splits)

lemma shuffle_deck_mset:
  assumes "randbelow_ok R"
  shows "mset (deck (snd (fst (shuffle R q (st, self))))) = mset (deck self)"
  using assms
  by (simp add: shuffle_eq Let_def first_order_def random_shuffle_mset split: sum.splits)

lemma shuffle_store_frame:
  "\<exists>b. fst (fst (shuffle R q (st, self))) r = (st r)\<lparr>is_rev := b\<rparr>"
  using reverse_loop_frame [of "[0..<n_rev_drawn R q]" "first_order R q (deck self)" st r]
  by (auto simp: shuffle_eq Let_def split: sum.splits)

lemma n_rev_drawn_range:
  "randbelow_ok R \<Longrightarrow> MIN_REV \<le> n_rev_drawn R q \<and> n_rev_drawn R q \<le> MAX_REV"
proof -
  assume "randbelow_ok R"
  then have "fst (randbelow R 40 (seed R q)) < 40"
    by (simp add: randbelow_ok_def)
  then show ?thesis
    by (simp add: n_rev_drawn_def draw_n_rev_def randint_def MIN_REV_def MAX_REV_def
        split: prod.splits)
qed

lemma lcg_ok: "randbelow_ok lcg"
  by (simp add: randbelow_ok_def lcg_def)

lemma map_toggled:
  assumes "distinct d"
  shows "map (\<lambda>r. if r \<in> set (take n d) then f (st r) else st r) d =
     map f (take n (map st d)) @ drop n (map st d)"
proof -
  have disj: "set (take n d) \<inter> set (drop n d) = {}"
    using assms by (metis append_take_drop_id distinct_append)
  have "map (\<lambda>r. if r \<in> set (take n d) then f (st r) else st r) (take n d) =
      map f (take n (map st d))"
    by (simp add: take_map)
  moreover have "map (\<lambda>r. if r \<in> set (take n d) then f (st r) else st r) (drop n d) =
      drop n (map st d)"
    using disj by (auto simp: drop_map)
  ultimately have "map (\<lambda>r. if r \<in> set (take n d) then f (st r) else st r)
      (take n d @ drop n d) = map f (take n (map st d)) @ drop n (map st d)"
    by (simp only: map_append)
  then show ?thesis
    by simp
qed

lemma first_order_mset:
  "randbelow_ok R \<Longrightarrow> mset (first_order R q d) = mset d"
  by (simp add: first_order_def random_shuffle_mset)

lemma first_order_distinct:
  "randbelow_ok R \<Longrightarrow> distinct d \<Longrightarrow> distinct (first_order R q d)"
  using first_order_mset mset_eq_imp_distinct_iff by blast

lemma first_order_length:
  "length (first_order R q d) = length d"
  by (simp add: first_order_def random_shuffle_length)

text \<open>The card values a deck holds after the shuffle, from those it held before.\<close>

lemma shuffle_cards:
  fixes R :: "'g random" and q :: string and st :: store and self :: TrDeck
  assumes ok: "randbelow_ok R" and dist: "distinct (deck self)"
  defines "n \<equiv> n_rev_drawn R q"
  defines "g1 \<equiv> snd (draw_n_rev R q)"
  defines "x1 \<equiv> random_shuffle R (map st (deck self)) g1"
  defines "y \<equiv> map toggle (take n (fst x1)) @ drop n (fst x1)"
  shows "deck_cards (fst (shuffle R q (st, self))) =
      (if n \<le> length (deck self) then fst (random_shuffle R y (snd x1)) else y)"
    and "snd (shuffle R q (st, self)) =
      (if n \<le> length (deck self) then Inr () else Inl IndexError)"
proof -
  let ?d1 = "first_order R q (deck self)"
  let ?g2 = "snd (random_shuffle R (deck self) g1)"
  let ?st' = "\<lambda>r. if r \<in> set (take n ?d1) then toggle (st r) else st r"
  have d1: "distinct ?d1"
    using ok dist by (rule first_order_distinct)
  have x1: "x1 = (map st ?d1, ?g2)"
    using ok by (simp add: x1_def first_order_def g1_def random_shuffle_map)
  have lp: "for_each [0..<n] (reverse_card ?d1) st =
      (?st', if n \<le> length (deck self) then Inr () else Inl IndexError)"
    using reverse_loop [OF d1, of n st] by (simp add: first_order_length)
  have y: "map ?st' ?d1 = y"
    using map_toggled [OF d1, of n toggle st] x1 by (simp add: y_def)
  show "snd (shuffle R q (st, self)) =
      (if n \<le> length (deck self) then Inr () else Inl IndexError)"
    using lp by (simp add: shuffle_eq Let_def n_def [symmetric])
  show "deck_cards (fst (shuffle R q (st, self))) =
      (if n \<le> length (deck self) then fst (random_shuffle R y (snd x1)) else y)"
  proof (cases "n \<le> length (deck self)")
    case True
    have "map ?st' (fst (random_shuffle R ?d1 ?g2)) = fst (random_shuffle R (map ?st' ?d1) ?g2)"
      using ok by (simp add: random_shuffle_map)
    with True lp y x1 show ?thesis
      by (simp add: shuffle_eq Let_def n_def [symmetric] g1_def [symmetric] deck_cards_def)
  next
    case False
    with lp y show ?thesis
      by (simp add: shuffle_eq Let_def n_def [symmetric] deck_cards_def)
  qed
qed


lemma count_toggled:
  "length (filter is_rev (map toggle cs)) = length (filter (\<lambda>c. \<not> is_rev c) cs)"
  by (induction cs) (simp_all add: toggle_def)

lemma count_perm:
  "mset xs = mset ys \<Longrightarrow> length (filter P xs) = length (filter P ys)"
  by (metis mset_filter size_mset)

lemma shuffle_count:
  fixes R :: "'g random" and q :: string and st :: store and self :: TrDeck
  assumes ok: "randbelow_ok R" and dist: "distinct (deck self)"
    and n: "n_rev_drawn R q \<le> length (deck self)"
  defines "cs \<equiv> map st (first_order R q (deck self))"
  shows "length (filter is_rev (deck_cards (fst (shuffle R q (st, self))))) =
     length (filter (\<lambda>c. \<not> is_rev c) (take (n_rev_drawn R q) cs)) +
     length (filter is_rev (drop (n_rev_drawn R q) cs))"
proof -
  let ?n = "n_rev_drawn R q"
  let ?g1 = "snd (draw_n_rev R q)"
  let ?x1 = "random_shuffle R (map st (deck self)) ?g1"
  let ?y = "map toggle (take ?n (fst ?x1)) @ drop ?n (fst ?x1)"
  have x1: "fst ?x1 = cs"
    using ok by (simp add: cs_def first_order_def random_shuffle_map)
  have "deck_cards (fst (shuffle R q (st, self))) = fst (random_shuffle R ?y (snd ?x1))"
    using shuffle_cards(1) [OF ok dist, of q st] n by simp
  then have "mset (deck_cards (fst (shuffle R q (st, self)))) = mset ?y"
    using ok by (simp add: random_shuffle_mset)
  then have "length (filter is_rev (deck_cards (fst (shuffle R q (st, self))))) =
      length (filter is_rev ?y)"
    by (rule count_perm)
  moreover have "length (filter is_rev ?y) =
      length (filter is_rev (map toggle (take ?n cs))) + length (filter is_rev (drop ?n cs))"
    by (simp only: x1 filter_append length_append)
  ultimately show ?thesis
    by (simp only: count_toggled)
qed

lemma shuffle_store:
  assumes "randbelow_ok R" and "distinct (deck self)"
  shows "fst (fst (shuffle R q (st, self))) =
     (\<lambda>r. if r \<in> set (take (n_rev_drawn R q) (first_order R q (deck self)))
          then toggle (st r) else st r)"
proof -
  have "distinct (first_order R q (deck self))"
    using assms by (rule first_order_distinct)
  from reverse_loop [OF this, of "n_rev_drawn R q" st] show ?thesis
    by (simp add: shuffle_eq Let_def)
qed


text \<open>
  C1. Two decks that hold the same card values in the same order (names, codes, keywords,
  reversal flags and all other fields), shuffled with the same seed string, hold the same
  card values in the same order afterwards, and the two calls end alike. A deck holds no
  card object twice, since \<^verbatim>\<open>fill_deck\<close> makes a new object for every row; the generator
  only has to keep its numbers below the bound asked for.
\<close>

theorem shuffle_deterministic:
  assumes "randbelow_ok R" and "distinct (deck a)" and "distinct (deck b)"
    and "deck_cards (sa, a) = deck_cards (sb, b)"
  shows "deck_cards (fst (shuffle R q (sa, a))) = deck_cards (fst (shuffle R q (sb, b))) \<and>
         snd (shuffle R q (sa, a)) = snd (shuffle R q (sb, b))"
proof -
  have eq: "map sa (deck a) = map sb (deck b)"
    using assms(4) by (simp add: deck_cards_def)
  then have len: "length (deck a) = length (deck b)"
    by (rule map_eq_imp_length_eq)
  show ?thesis
    using shuffle_cards [OF assms(1,2), of q sa] shuffle_cards [OF assms(1,3), of q sb] eq len
    by simp
qed

theorem shuffle_deterministic_witness:
  "randbelow_ok lcg \<and> distinct (deck \<lparr>deck = [0, 1, 2, 3]\<rparr>) \<and>
   distinct (deck \<lparr>deck = [7, 6, 5, 4]\<rparr>) \<and>
   deck_cards ((\<lambda>r. sample_store (r mod 4)), \<lparr>deck = [0, 1, 2, 3]\<rparr>) =
     deck_cards ((\<lambda>r. sample_store (7 - r)), \<lparr>deck = [7, 6, 5, 4]\<rparr>) \<and>
   deck_cards (fst (shuffle lcg ''abc'' ((\<lambda>r. sample_store (r mod 4)), \<lparr>deck = [0, 1, 2, 3]\<rparr>))) =
     deck_cards (fst (shuffle lcg ''abc'' ((\<lambda>r. sample_store (7 - r)), \<lparr>deck = [7, 6, 5, 4]\<rparr>))) \<and>
   snd (shuffle lcg ''abc'' ((\<lambda>r. sample_store (r mod 4)), \<lparr>deck = [0, 1, 2, 3]\<rparr>)) =
     snd (shuffle lcg ''abc'' ((\<lambda>r. sample_store (7 - r)), \<lparr>deck = [7, 6, 5, 4]\<rparr>))"
proof -
  have h1: "randbelow_ok lcg"
    by (rule lcg_ok)
  have h2: "distinct (deck \<lparr>deck = [0, 1, 2, 3]\<rparr>)"
    by simp
  have h3: "distinct (deck \<lparr>deck = [7, 6, 5, 4]\<rparr>)"
    by simp
  have h4: "deck_cards ((\<lambda>r. sample_store (r mod 4)), \<lparr>deck = [0, 1, 2, 3]\<rparr>) =
     deck_cards ((\<lambda>r. sample_store (7 - r)), \<lparr>deck = [7, 6, 5, 4]\<rparr>)"
    by (simp add: deck_cards_def)
  note r = shuffle_deterministic [OF h1 h2 h3 h4, of "''abc''"]
  show ?thesis
    using h1 h2 h3 h4 r [THEN conjunct1] r [THEN conjunct2] by (intro conjI)
qed

text \<open>
  C10. A shuffle neither adds nor removes a card: the deck afterwards is a rearrangement of
  the same card objects, so it has the same length, and no card's name, code or keywords
  change, so the deck holds the same multiset of identities. This holds for every deck and
  every seed, also when the reversal loop runs off the end of a short deck.
\<close>

theorem shuffle_keeps_cards:
  assumes "randbelow_ok R"
  shows "mset (deck (snd (fst (shuffle R q (st, self))))) = mset (deck self) \<and>
         length (deck (snd (fst (shuffle R q (st, self))))) = length (deck self) \<and>
         (\<forall>r. identity (fst (fst (shuffle R q (st, self))) r) = identity (st r)) \<and>
         mset (map identity (deck_cards (fst (shuffle R q (st, self))))) =
           mset (map identity (deck_cards (st, self)))"
proof -
  let ?st' = "fst (fst (shuffle R q (st, self)))"
  let ?d' = "deck (snd (fst (shuffle R q (st, self))))"
  have m: "mset ?d' = mset (deck self)"
    using assms by (rule shuffle_deck_mset)
  then have l: "length ?d' = length (deck self)"
    by (rule mset_eq_length)
  have i: "identity (?st' r) = identity (st r)" for r
    using shuffle_store_frame [of R q st self r] by (auto simp: identity_def)
  have "map identity (deck_cards (fst (shuffle R q (st, self)))) = map (\<lambda>r. identity (st r)) ?d'"
    by (simp add: deck_cards_def i)
  then have "mset (map identity (deck_cards (fst (shuffle R q (st, self))))) =
      image_mset (\<lambda>r. identity (st r)) (mset ?d')"
    by simp
  also have "\<dots> = mset (map identity (deck_cards (st, self)))"
    by (simp add: m deck_cards_def comp_def)
  finally show ?thesis
    using m l i by blast
qed

theorem shuffle_keeps_cards_witness:
  "randbelow_ok lcg \<and>
   mset (deck (snd (fst (shuffle lcg ''abc'' (sample_store, \<lparr>deck = [0, 1, 2, 3]\<rparr>))))) =
     mset (deck \<lparr>deck = [0, 1, 2, 3]\<rparr>) \<and>
   deck (snd (fst (shuffle lcg ''abc'' (sample_store, \<lparr>deck = [0, 1, 2, 3]\<rparr>)))) = [1, 0, 3, 2]"
proof -
  have ok: "randbelow_ok lcg"
    by (rule lcg_ok)
  have d: "deck (snd (fst (shuffle lcg ''abc'' (sample_store, \<lparr>deck = [0, 1, 2, 3]\<rparr>)))) = [1, 0, 3, 2]"
    by code_simp
  note r = shuffle_keeps_cards [OF ok, of "''abc''" sample_store "\<lparr>deck = [0, 1, 2, 3]\<rparr>"]
  show ?thesis
    using ok r [THEN conjunct1] d by (intro conjI)
qed

lemma n_abc: "n_rev_drawn lcg ''abc'' = 3"
  by (simp add: n_rev_drawn_def draw_n_rev_def randint_def lcg_def MIN_REV_def MAX_REV_def)


lemma reverse_loop_result:
  "snd (for_each [0..<n] (reverse_card d) st) =
     (if n \<le> length d then Inr () else Inl IndexError)"
proof (induction n)
  case 0
  then show ?case by simp
next
  case (Suc n)
  obtain s' r where lp: "for_each [0..<n] (reverse_card d) st = (s', r)"
    by (cases "for_each [0..<n] (reverse_card d) st")
  show ?case
  proof (cases "n < length d")
    case True
    with Suc lp have "r = Inr ()"
      by simp
    moreover have "snd (reverse_card d n s') = Inr ()"
      using True by (simp add: reverse_card_def)
    ultimately show ?thesis
      using lp True unfolding for_each_snoc by (simp split: prod.splits)
  next
    case False
    have "snd (reverse_card d n s') = Inl IndexError"
      using False by (simp add: reverse_card_def)
    then show ?thesis
      using Suc lp False unfolding for_each_snoc
      by (cases r) (auto split: prod.splits)
  qed
qed


text \<open>
  C7, as stated, fails: the number of reversed cards after a shuffle is not bounded by
  \<open>MAX_REV\<close> for every deck state, because the loop toggles flags and never sets them.
  A deck of 44 cards that are all reversed beforehand has 41 reversed cards afterwards.
\<close>

theorem shuffle_count_counterexample:
  "\<not> length (filter is_rev (deck_cards (fst (shuffle lcg ''abc''
       ((\<lambda>r. toggle (sample_store r)), \<lparr>deck = [0..<44]\<rparr>))))) \<le> MAX_REV"
proof -
  let ?st = "\<lambda>r. toggle (sample_store r)"
  let ?cs = "map ?st (first_order lcg ''abc'' (deck \<lparr>deck = [0..<44]\<rparr>))"
  have d: "distinct (deck \<lparr>deck = [0..<44]\<rparr>)"
    by simp
  have n: "n_rev_drawn lcg ''abc'' \<le> length (deck \<lparr>deck = [0..<44]\<rparr>)"
    by (simp add: n_abc)
  have all: "\<forall>c \<in> set ?cs. is_rev c"
    by (simp add: sample_store_def TrCard_init_def toggle_def)
  have a: "filter (\<lambda>c. \<not> is_rev c) (take 3 ?cs) = []"
    using all by (meson filter_False in_set_takeD)
  have b: "filter is_rev (drop 3 ?cs) = drop 3 ?cs"
    using all by (meson filter_True in_set_dropD)
  have "length (drop 3 ?cs) = 41"
    by (simp add: first_order_length)
  with shuffle_count [OF lcg_ok d n, of ?st] have
    "length (filter is_rev (deck_cards (fst (shuffle lcg ''abc'' (?st, \<lparr>deck = [0..<44]\<rparr>))))) = 41"
    by (simp only: n_abc a b list.size add_0)
  then show ?thesis
    by (simp add: MAX_REV_def)
qed

text \<open>
  C7, amended. For every seed and every deck of distinct cards with at least \<open>n\<close> cards,
  where \<open>n\<close> is the number drawn from \<open>[MIN_REV, MAX_REV]\<close> (so for every deck of at
  least \<open>MAX_REV\<close> cards), the shuffle succeeds and the store afterwards differs from the
  store before only by a toggle of \<open>is_rev\<close> on the first \<open>n\<close> cards of the order after
  the first permutation. When every card of the deck is upright beforehand, as after
  loading, exactly \<open>n\<close> cards are reversed afterwards, a number in \<open>[MIN_REV, MAX_REV]\<close>.
\<close>

theorem shuffle_toggles_first_n:
  assumes "randbelow_ok R" and "distinct (deck self)"
    and "n_rev_drawn R q \<le> length (deck self)"
  shows "MIN_REV \<le> n_rev_drawn R q \<and> n_rev_drawn R q \<le> MAX_REV \<and>
     snd (shuffle R q (st, self)) = Inr () \<and>
     fst (fst (shuffle R q (st, self))) =
       (\<lambda>r. if r \<in> set (take (n_rev_drawn R q) (first_order R q (deck self)))
            then toggle (st r) else st r) \<and>
     ((\<forall>r \<in> set (deck self). \<not> is_rev (st r)) \<longrightarrow>
        length (filter is_rev (deck_cards (fst (shuffle R q (st, self))))) = n_rev_drawn R q)"
proof -
  have up: "length (filter is_rev (deck_cards (fst (shuffle R q (st, self))))) = n_rev_drawn R q"
    if "\<forall>r \<in> set (deck self). \<not> is_rev (st r)"
  proof -
    let ?cs = "map st (first_order R q (deck self))"
    have "set (first_order R q (deck self)) = set (deck self)"
      using assms(1) first_order_mset mset_eq_setD by blast
    with that have all: "\<forall>c \<in> set ?cs. \<not> is_rev c"
      by simp
    have a: "filter (\<lambda>c. \<not> is_rev c) (take (n_rev_drawn R q) ?cs) = take (n_rev_drawn R q) ?cs"
      using all by (meson filter_True in_set_takeD)
    have b: "filter is_rev (drop (n_rev_drawn R q) ?cs) = []"
      using all by (meson filter_False in_set_dropD)
    have "length (take (n_rev_drawn R q) ?cs) = n_rev_drawn R q"
      using assms(3) by (simp add: first_order_length)
    with shuffle_count [OF assms, of st] show ?thesis
      by (simp only: a b list.size add_0_right)
  qed
  have res: "snd (shuffle R q (st, self)) = Inr ()"
    using shuffle_cards(2) [OF assms(1,2), of q st] assms(3) by simp
  note rg = n_rev_drawn_range [OF assms(1), of q]
  show ?thesis
    using rg [THEN conjunct1] rg [THEN conjunct2] res
      shuffle_store [OF assms(1,2), of q st] up
    by (intro conjI impI)
qed


theorem shuffle_toggles_first_n_witness:
  "randbelow_ok lcg \<and> distinct (deck \<lparr>deck = [0, 1, 2, 3]\<rparr>) \<and>
   n_rev_drawn lcg ''abc'' \<le> length (deck \<lparr>deck = [0, 1, 2, 3]\<rparr>) \<and>
   \<not> is_rev (sample_store 0) \<and> \<not> is_rev (sample_store 1) \<and>
   \<not> is_rev (sample_store 2) \<and> \<not> is_rev (sample_store 3) \<and>
   n_rev_drawn lcg ''abc'' = 3 \<and>
   first_order lcg ''abc'' [0, 1, 2, 3] = [3, 0, 1, 2] \<and>
   snd (shuffle lcg ''abc'' (sample_store, \<lparr>deck = [0, 1, 2, 3]\<rparr>)) = Inr () \<and>
   length (filter is_rev (deck_cards (fst (shuffle lcg ''abc'' (sample_store, \<lparr>deck = [0, 1, 2, 3]\<rparr>))))) = 3"
proof -
  have h1: "randbelow_ok lcg"
    by (rule lcg_ok)
  have h2: "distinct (deck \<lparr>deck = [0, 1, 2, 3]\<rparr>)"
    by simp
  have h3: "n_rev_drawn lcg ''abc'' \<le> length (deck \<lparr>deck = [0, 1, 2, 3]\<rparr>)"
    by (simp add: n_abc)
  have h4: "\<forall>r \<in> set (deck \<lparr>deck = [0, 1, 2, 3]\<rparr>). \<not> is_rev (sample_store r)"
    by (simp add: sample_store_def TrCard_init_def)
  have fo: "first_order lcg ''abc'' [0, 1, 2, 3] = [3, 0, 1, 2]"
    by code_simp
  note r = shuffle_toggles_first_n [OF h1 h2 h3, of sample_store]
  have res: "snd (shuffle lcg ''abc'' (sample_store, \<lparr>deck = [0, 1, 2, 3]\<rparr>)) = Inr ()"
    using r by blast
  have cnt: "length (filter is_rev (deck_cards (fst (shuffle lcg ''abc''
      (sample_store, \<lparr>deck = [0, 1, 2, 3]\<rparr>))))) = 3"
    using r h4 n_abc by presburger
  have up: "\<not> is_rev (sample_store r)" for r
    by (simp add: sample_store_def TrCard_init_def)
  show ?thesis
    using h1 h2 h3 up n_abc fo res cnt by (intro conjI)
qed


text \<open>
  C8, as stated, fails: a second call with the same seed on the shuffled deck changes the
  order and the flags again. With the sample generator and seed \<^verbatim>\<open>abc\<close>, four upright cards
  are in order 1, 0, 3, 2 with three reversed after the first call, and back in order
  0, 1, 2, 3 with two reversed after the second.
\<close>

theorem shuffle_twice_counterexample:
  "deck (snd (fst (shuffle lcg ''abc'' (sample_store, \<lparr>deck = [0, 1, 2, 3]\<rparr>)))) = [1, 0, 3, 2] \<and>
   map is_rev (deck_cards (fst (shuffle lcg ''abc'' (sample_store, \<lparr>deck = [0, 1, 2, 3]\<rparr>)))) =
     [True, True, True, False] \<and>
   deck (snd (fst (shuffle lcg ''abc''
     (fst (shuffle lcg ''abc'' (sample_store, \<lparr>deck = [0, 1, 2, 3]\<rparr>)))))) = [0, 1, 2, 3] \<and>
   map is_rev (deck_cards (fst (shuffle lcg ''abc''
     (fst (shuffle lcg ''abc'' (sample_store, \<lparr>deck = [0, 1, 2, 3]\<rparr>)))))) =
     [False, False, True, True]"
  by code_simp

text \<open>
  C8, amended. The same seed replays the same rearrangement rather than the same result:
  for every deck, the order after \<^verbatim>\<open>shuffle(seed)\<close> is the order before it read through a
  list of positions that depends only on the seed and on the size of the deck, namely the
  order the same call gives the deck of positions \<open>0, \<dots>, size - 1\<close>. A second call
  with the same seed therefore applies that list of positions to the shuffled deck.
\<close>

theorem shuffle_order_from_seed:
  assumes "randbelow_ok R"
  shows "deck (snd (fst (shuffle R q (st, self)))) =
     map (\<lambda>i. deck self ! i)
       (deck (snd (fst (shuffle R q (st0, \<lparr>deck = [0..<length (deck self)]\<rparr>)))))"
proof -
  let ?d = "deck self"
  let ?ix = "[0..<length ?d]"
  let ?n = "n_rev_drawn R q"
  let ?g1 = "snd (draw_n_rev R q)"
  let ?p1 = "first_order R q ?ix"
  let ?g2 = "snd (random_shuffle R ?d ?g1)"
  have d1: "first_order R q ?d = map (\<lambda>i. ?d ! i) ?p1"
    using random_shuffle_positions [OF assms, of ?d ?g1] by (simp add: first_order_def)
  have g2: "snd (random_shuffle R ?ix ?g1) = ?g2"
    using random_shuffle_state [OF assms, of ?ix ?d ?g1] by simp
  have d2: "fst (random_shuffle R (first_order R q ?d) ?g2) =
      map (\<lambda>i. ?d ! i) (fst (random_shuffle R ?p1 ?g2))"
    using random_shuffle_map [OF assms, of "\<lambda>i. ?d ! i" ?p1 ?g2] by (simp add: d1)
  have ra: "snd (for_each [0..<?n] (reverse_card (first_order R q ?d)) st) =
      (if ?n \<le> length ?d then Inr () else Inl IndexError)"
    by (simp add: reverse_loop_result first_order_length)
  have rb: "snd (for_each [0..<?n] (reverse_card ?p1) st0) =
      (if ?n \<le> length ?d then Inr () else Inl IndexError)"
    by (simp add: reverse_loop_result first_order_length)
  show ?thesis
  proof (cases "?n \<le> length ?d")
    case True
    with ra rb d2 g2 show ?thesis
      by (simp add: shuffle_eq Let_def)
  next
    case False
    with ra rb d1 show ?thesis
      by (simp add: shuffle_eq Let_def)
  qed
qed

theorem shuffle_order_from_seed_witness:
  "randbelow_ok lcg \<and>
   deck (snd (fst (shuffle lcg ''abc'' (sample_store, \<lparr>deck = [0..<length (deck \<lparr>deck = [7, 6, 5, 4]\<rparr>)]\<rparr>)))) =
     [1, 0, 3, 2] \<and>
   deck (snd (fst (shuffle lcg ''abc'' (sample_store, \<lparr>deck = [7, 6, 5, 4]\<rparr>)))) = [6, 7, 4, 5]"
proof -
  have ok: "randbelow_ok lcg"
    by (rule lcg_ok)
  have p: "deck (snd (fst (shuffle lcg ''abc''
      (sample_store, \<lparr>deck = [0..<length (deck \<lparr>deck = [7, 6, 5, 4]\<rparr>)]\<rparr>)))) = [1, 0, 3, 2]"
    by code_simp
  have "deck (snd (fst (shuffle lcg ''abc'' (sample_store, \<lparr>deck = [7, 6, 5, 4]\<rparr>)))) =
      map (\<lambda>i. deck \<lparr>deck = [7, 6, 5, 4]\<rparr> ! i) [1, 0, 3, 2]"
    using shuffle_order_from_seed [OF ok, of "''abc''" sample_store "\<lparr>deck = [7, 6, 5, 4]\<rparr>" sample_store]
    by (simp only: p)
  then have d: "deck (snd (fst (shuffle lcg ''abc'' (sample_store, \<lparr>deck = [7, 6, 5, 4]\<rparr>)))) = [6, 7, 4, 5]"
    by simp
  show ?thesis
    using ok p d by (intro conjI)
qed

section \<open>Dealing the spread\<close>

text \<open>The dealing loop while the deck lasts.\<close>

lemma deal_loop:
  fixes w :: WinTr and sprd_config :: "sprd_entry list"
  defines "d \<equiv> deck (tr_deck w)"
  assumes k: "k \<le> length d"
  shows "\<exists>st. for_each [0..<k] (deal_card sprd_config) w =
      (w\<lparr>cards := st, tr_sprd := (tr_sprd w)\<lparr>deck := deck (tr_sprd w) @ take k d\<rparr>\<rparr>, Inr ()) \<and>
    (distinct d \<longrightarrow>
      (\<forall>i<k. min_coord (st (d ! i)) =
                map_prod Some Some (fst (spec_region (CELL_SZ ! 0) (CELL_SZ ! 1) CELL_PAD (sprd_config ! i))) \<and>
             max_coord (st (d ! i)) =
                map_prod Some Some (snd (spec_region (CELL_SZ ! 0) (CELL_SZ ! 1) CELL_PAD (sprd_config ! i)))))"
  using k
proof (induction k)
  case 0
  have "w\<lparr>cards := cards w, tr_sprd := (tr_sprd w)\<lparr>deck := deck (tr_sprd w) @ take 0 d\<rparr>\<rparr> = w"
    by simp
  then show ?case
    by (intro exI [of _ "cards w"]) simp
next
  case (Suc k)
  then have kd: "k < length d" and kd': "k \<le> length d"
    by simp_all
  from Suc.IH [OF kd'] obtain st where
    run: "for_each [0..<k] (deal_card sprd_config) w =
      (w\<lparr>cards := st, tr_sprd := (tr_sprd w)\<lparr>deck := deck (tr_sprd w) @ take k d\<rparr>\<rparr>, Inr ())"
    and reg: "distinct d \<Longrightarrow> i < k \<Longrightarrow>
        min_coord (st (d ! i)) =
          map_prod Some Some (fst (spec_region (CELL_SZ ! 0) (CELL_SZ ! 1) CELL_PAD (sprd_config ! i))) \<and>
        max_coord (st (d ! i)) =
          map_prod Some Some (snd (spec_region (CELL_SZ ! 0) (CELL_SZ ! 1) CELL_PAD (sprd_config ! i)))" for i
    by blast
  let ?wk = "w\<lparr>cards := st, tr_sprd := (tr_sprd w)\<lparr>deck := deck (tr_sprd w) @ take k d\<rparr>\<rparr>"
  obtain col row lbl where e: "sprd_config ! k = (col, row, lbl)"
    by (cases "sprd_config ! k")
  let ?x = "col * (CELL_SZ ! 0) + CELL_PAD"
  let ?y = "row * (CELL_SZ ! 1) + CELL_PAD"
  let ?st' = "st(d ! k := (st (d ! k))\<lparr>min_coord := (Some ?x, Some ?y),
      max_coord := (Some (?x + (CELL_SZ ! 0) - 2 * CELL_PAD), Some (?y + (CELL_SZ ! 1) - 2 * CELL_PAD))\<rparr>)"
  have step: "deal_card sprd_config k ?wk =
      (w\<lparr>cards := ?st', tr_sprd := (tr_sprd w)\<lparr>deck := deck (tr_sprd w) @ take (Suc k) d\<rparr>\<rparr>, Inr ())"
    using kd e by (simp add: deal_card_def add_card_def d_def Let_def take_Suc_conv_app_nth)
  have run': "for_each [0..<Suc k] (deal_card sprd_config) w =
      (w\<lparr>cards := ?st', tr_sprd := (tr_sprd w)\<lparr>deck := deck (tr_sprd w) @ take (Suc k) d\<rparr>\<rparr>, Inr ())"
    unfolding for_each_snoc run using step by simp
  have reg': "min_coord (?st' (d ! i)) =
          map_prod Some Some (fst (spec_region (CELL_SZ ! 0) (CELL_SZ ! 1) CELL_PAD (sprd_config ! i))) \<and>
        max_coord (?st' (d ! i)) =
          map_prod Some Some (snd (spec_region (CELL_SZ ! 0) (CELL_SZ ! 1) CELL_PAD (sprd_config ! i)))"
    if dist: "distinct d" and i: "i < Suc k" for i
  proof (cases "i = k")
    case True
    then show ?thesis
      using e by (simp add: spec_region_def Let_def algebra_simps)
  next
    case False
    with i have ik: "i < k"
      by simp
    then have "d ! i \<noteq> d ! k"
      using dist kd by (simp add: nth_eq_iff_index_eq)
    with reg [OF dist ik] show ?thesis
      by simp
  qed
  show ?case
    using run' reg' by blast
qed

lemma deal_loop_short:
  fixes w :: WinTr and sprd_config :: "sprd_entry list"
  defines "d \<equiv> deck (tr_deck w)"
  assumes "length d < n"
  shows "\<exists>st. for_each [0..<n] (deal_card sprd_config) w =
      (w\<lparr>cards := st, tr_sprd := (tr_sprd w)\<lparr>deck := deck (tr_sprd w) @ d\<rparr>\<rparr>,
       Inl IndexError) \<and>
    (distinct d \<longrightarrow>
      (\<forall>i<length d. min_coord (st (d ! i)) =
                map_prod Some Some (fst (spec_region (CELL_SZ ! 0) (CELL_SZ ! 1) CELL_PAD (sprd_config ! i))) \<and>
             max_coord (st (d ! i)) =
                map_prod Some Some (snd (spec_region (CELL_SZ ! 0) (CELL_SZ ! 1) CELL_PAD (sprd_config ! i)))))"
proof -
  let ?m = "length d"
  have m: "?m \<le> length (deck (tr_deck w))"
    by (simp add: d_def)
  from deal_loop [OF m, of sprd_config] obtain st where
    run: "for_each [0..<?m] (deal_card sprd_config) w =
      (w\<lparr>cards := st, tr_sprd := (tr_sprd w)\<lparr>deck := deck (tr_sprd w) @ d\<rparr>\<rparr>, Inr ())"
    and reg: "distinct d \<longrightarrow>
      (\<forall>i<length d. min_coord (st (d ! i)) =
                map_prod Some Some (fst (spec_region (CELL_SZ ! 0) (CELL_SZ ! 1) CELL_PAD (sprd_config ! i))) \<and>
             max_coord (st (d ! i)) =
                map_prod Some Some (snd (spec_region (CELL_SZ ! 0) (CELL_SZ ! 1) CELL_PAD (sprd_config ! i))))"
    by (auto simp: d_def)
  let ?wm = "w\<lparr>cards := st, tr_sprd := (tr_sprd w)\<lparr>deck := deck (tr_sprd w) @ d\<rparr>\<rparr>"
  have lt: "?m < n"
    using assms by simp
  have "[0..<?m + (n - ?m)] = [0..<?m] @ [?m..<?m + (n - ?m)]"
    by (rule upt_add_eq_append) simp
  moreover have "?m + (n - ?m) = n"
    using lt by simp
  ultimately have "[0..<n] = [0..<?m] @ [?m..<n]"
    by simp
  then have split: "[0..<n] = [0..<?m] @ ?m # [Suc ?m..<n]"
    using upt_conv_Cons [OF lt] by simp
  have stop: "deal_card sprd_config ?m ?wm = (?wm, Inl IndexError)"
    by (simp add: deal_card_def Let_def d_def split: prod.splits)
  have "for_each [0..<n] (deal_card sprd_config) w = (?wm, Inl IndexError)"
    unfolding split for_each_append run using stop by simp
  with reg show ?thesis
    by blast
qed

text \<open>
  What a deal does on any spread, while the deck has a card for every entry: it succeeds,
  leaves the deck as it was and appends one placement per entry after those the spread
  already holds, the card at deck index \<open>i\<close> for entry \<open>i\<close>; in a deck of distinct
  cards that card then carries the region of entry \<open>i\<close>, origin
  \<open>(columnUnits * cellWidth + cellPad, rowUnits * cellHeight + cellPad)\<close> and extent
  \<open>origin + (cellWidth - 2 * cellPad, cellHeight - 2 * cellPad)\<close>.
\<close>

lemma show_spread_lockstep:
  assumes "map_of SPREAD_DEFN (strv_sprd w) = Some sprd_config"
    and "length sprd_config \<le> length (deck (tr_deck w))"
    and "i < length sprd_config"
  shows "snd (show_spread w) = Inr () \<and>
     tr_deck (fst (show_spread w)) = tr_deck w \<and>
     deck (tr_sprd (fst (show_spread w))) =
       deck (tr_sprd w) @ take (length sprd_config) (deck (tr_deck w)) \<and>
     deck (tr_sprd (fst (show_spread w))) ! (length (deck (tr_sprd w)) + i) = deck (tr_deck w) ! i \<and>
     (distinct (deck (tr_deck w)) \<longrightarrow>
       min_coord (cards (fst (show_spread w)) (deck (tr_deck w) ! i)) =
         map_prod Some Some (fst (spec_region (CELL_SZ ! 0) (CELL_SZ ! 1) CELL_PAD (sprd_config ! i))) \<and>
       max_coord (cards (fst (show_spread w)) (deck (tr_deck w) ! i)) =
         map_prod Some Some (snd (spec_region (CELL_SZ ! 0) (CELL_SZ ! 1) CELL_PAD (sprd_config ! i))))"
proof -
  let ?w0 = "w\<lparr>tr_sprd := (tr_sprd w)\<lparr>sprd_name := strv_sprd w\<rparr>\<rparr>"
  let ?n = "length sprd_config"
  let ?d = "deck (tr_deck w)"
  have n: "?n \<le> length (deck (tr_deck ?w0))"
    using assms(2) by simp
  from deal_loop [OF n, of sprd_config] assms(3) obtain st where
    run: "for_each [0..<?n] (deal_card sprd_config) ?w0 =
      (?w0\<lparr>cards := st, tr_sprd := (tr_sprd ?w0)\<lparr>deck := deck (tr_sprd ?w0) @ take ?n ?d\<rparr>\<rparr>, Inr ())"
    and reg: "distinct ?d \<longrightarrow>
      min_coord (st (?d ! i)) =
        map_prod Some Some (fst (spec_region (CELL_SZ ! 0) (CELL_SZ ! 1) CELL_PAD (sprd_config ! i))) \<and>
      max_coord (st (?d ! i)) =
        map_prod Some Some (snd (spec_region (CELL_SZ ! 0) (CELL_SZ ! 1) CELL_PAD (sprd_config ! i)))"
    by auto
  have sh: "show_spread w =
      (?w0\<lparr>cards := st, tr_sprd := (tr_sprd ?w0)\<lparr>deck := deck (tr_sprd ?w0) @ take ?n ?d\<rparr>\<rparr>, Inr ())"
    using run assms(1) by (simp add: show_spread_def)
  have sp: "deck (tr_sprd (fst (show_spread w))) = deck (tr_sprd w) @ take ?n ?d"
    by (simp add: sh)
  have c: "cards (fst (show_spread w)) = st"
    by (simp add: sh)
  have r: "snd (show_spread w) = Inr ()" and t: "tr_deck (fst (show_spread w)) = tr_deck w"
    by (simp_all add: sh)
  have p: "deck (tr_sprd (fst (show_spread w))) ! (length (deck (tr_sprd w)) + i) = ?d ! i"
    using assms(2,3) by (simp add: sp nth_append)
  show ?thesis
    using r t sp p reg unfolding c by (intro conjI)
qed

text \<open>
  C5 fails on the code when the spread already holds placements, which \<^verbatim>\<open>show_spread\<close>
  never removes. After a deal, a reshuffle and a second deal of the three-card spread, the
  deck has cards enough, yet placement 0 is still card 0 of the first deal, where deck index
  0 held card 1, and its region is that of entry 2, under which the second deal placed it.
  The cards of the second deal stand at placements 3, 4 and 5.
\<close>

theorem show_spread_stale_placement:
  "snd (show_spread reshuffled) = Inr () \<and>
   deck (tr_deck reshuffled) = [1, 3, 0, 2] \<and>
   deck (tr_sprd reshuffled) = [0, 1, 2] \<and>
   deck (tr_sprd dealt_again) = [0, 1, 2, 1, 3, 0] \<and>
   deck (tr_sprd dealt_again) ! 0 \<noteq> deck (tr_deck reshuffled) ! 0 \<and>
   min_coord (cards dealt_again (deck (tr_sprd dealt_again) ! 0)) = (Some 730, Some 235)"
  by code_simp

text \<open>
  C6, as stated, fails: the deal is not atomic. With four cards in the deck and the
  ten-card spread chosen after a three-card deal, \<^verbatim>\<open>show_spread\<close> raises \<^verbatim>\<open>IndexError\<close>
  only at the fifth entry; by then the spread is renamed, holds four more placements, and
  the region of card 0 is overwritten.
\<close>

theorem show_spread_short_counterexample:
  "deck (tr_deck ten_chosen) = [0, 1, 2, 3] \<and>
   length (the (map_of SPREAD_DEFN (strv_sprd ten_chosen))) = 10 \<and>
   tr_sprd ten_chosen = \<lparr>deck = [0, 1, 2], sprd_name = ''3 Card Simple Quick''\<rparr> \<and>
   min_coord (cards ten_chosen 0) = (Some 10, Some 235) \<and>
   snd (show_spread ten_chosen) = Inl IndexError \<and>
   tr_sprd (fst (show_spread ten_chosen)) =
     \<lparr>deck = [0, 1, 2, 0, 1, 2, 3], sprd_name = ''10 Card Celtic Cross''\<rparr> \<and>
   min_coord (cards (fst (show_spread ten_chosen)) 0) = (Some 250, Some 160)"
  by code_simp

text \<open>
  C6, amended. For every deck with fewer cards than the chosen definition has entries,
  the deal fails with \<^verbatim>\<open>IndexError\<close>, after it has renamed the spread to the chosen
  definition and appended one placement for every card of the deck, in deck order; the
  deck itself is unchanged. In a deck of distinct cards, the card at deck index \<open>i\<close> then
  carries the region of entry \<open>i\<close>, written by the failed deal.
\<close>

theorem show_spread_short:
  assumes "map_of SPREAD_DEFN (strv_sprd w) = Some sprd_config"
    and "length (deck (tr_deck w)) < length sprd_config"
  shows "snd (show_spread w) = Inl IndexError \<and>
     tr_deck (fst (show_spread w)) = tr_deck w \<and>
     deck (tr_sprd (fst (show_spread w))) = deck (tr_sprd w) @ deck (tr_deck w) \<and>
     sprd_name (tr_sprd (fst (show_spread w))) = strv_sprd w \<and>
     (distinct (deck (tr_deck w)) \<longrightarrow>
       (\<forall>i < length (deck (tr_deck w)).
          min_coord (cards (fst (show_spread w)) (deck (tr_deck w) ! i)) =
            map_prod Some Some (fst (spec_region (CELL_SZ ! 0) (CELL_SZ ! 1) CELL_PAD (sprd_config ! i))) \<and>
          max_coord (cards (fst (show_spread w)) (deck (tr_deck w) ! i)) =
            map_prod Some Some (snd (spec_region (CELL_SZ ! 0) (CELL_SZ ! 1) CELL_PAD (sprd_config ! i)))))"
proof -
  let ?w0 = "w\<lparr>tr_sprd := (tr_sprd w)\<lparr>sprd_name := strv_sprd w\<rparr>\<rparr>"
  let ?d = "deck (tr_deck w)"
  have "length (deck (tr_deck ?w0)) < length sprd_config"
    using assms(2) by simp
  from deal_loop_short [OF this, of sprd_config] obtain st where
    run: "for_each [0..<length sprd_config] (deal_card sprd_config) ?w0 =
      (?w0\<lparr>cards := st, tr_sprd := (tr_sprd ?w0)\<lparr>deck := deck (tr_sprd ?w0) @ ?d\<rparr>\<rparr>,
       Inl IndexError)"
    and reg: "distinct ?d \<longrightarrow>
      (\<forall>i<length ?d. min_coord (st (?d ! i)) =
                map_prod Some Some (fst (spec_region (CELL_SZ ! 0) (CELL_SZ ! 1) CELL_PAD (sprd_config ! i))) \<and>
             max_coord (st (?d ! i)) =
                map_prod Some Some (snd (spec_region (CELL_SZ ! 0) (CELL_SZ ! 1) CELL_PAD (sprd_config ! i))))"
    by auto
  have sh: "show_spread w =
      (?w0\<lparr>cards := st, tr_sprd := (tr_sprd ?w0)\<lparr>deck := deck (tr_sprd ?w0) @ ?d\<rparr>\<rparr>,
       Inl IndexError)"
    using run assms(1) by (simp add: show_spread_def)
  have c: "cards (fst (show_spread w)) = st"
    by (simp add: sh)
  have r: "snd (show_spread w) = Inl IndexError" and t: "tr_deck (fst (show_spread w)) = tr_deck w"
    and a: "deck (tr_sprd (fst (show_spread w))) = deck (tr_sprd w) @ ?d"
    and nm: "sprd_name (tr_sprd (fst (show_spread w))) = strv_sprd w"
    by (simp_all add: sh)
  show ?thesis
    using r t a nm reg unfolding c by (intro conjI)
qed

theorem show_spread_short_witness:
  "map_of SPREAD_DEFN (strv_sprd ten_chosen) = map_of SPREAD_DEFN ''10 Card Celtic Cross'' \<and>
   length (deck (tr_deck ten_chosen)) < 10 \<and>
   distinct (deck (tr_deck ten_chosen)) \<and>
   snd (show_spread ten_chosen) = Inl IndexError \<and>
   deck (tr_sprd (fst (show_spread ten_chosen))) = [0, 1, 2, 0, 1, 2, 3] \<and>
   min_coord (cards (fst (show_spread ten_chosen)) 3) = (Some 250, Some 460) \<and>
   max_coord (cards (fst (show_spread ten_chosen)) 3) = (Some 470, Some 590)"
proof -
  let ?cfg = "[(1, 1, ''1. Situation's heart, atmosphere''),
         (1, 2, ''2. Crossing challenges''),
         (1, 0, ''3. Crowning ideal or goal''),
         (1, 3, ''4. Root foundation''),
         (0, 3/2, ''5. Past influence''),
         (2, 3/2, ''6. Near future''),
         (3, 3, ''7. Attitude facing concerns''),
         (3, 2, ''8. Environment's effects''),
         (3, 1, ''9. Deep desires, fears''),
         (3, 0, ''10. Culmination, outcome'')] :: sprd_entry list"
  have cfg: "map_of SPREAD_DEFN ''10 Card Celtic Cross'' = Some ?cfg"
    by (simp add: SPREAD_DEFN_def)
  have s: "strv_sprd ten_chosen = ''10 Card Celtic Cross''"
    by (simp add: ten_chosen_def)
  have h1: "map_of SPREAD_DEFN (strv_sprd ten_chosen) = Some ?cfg"
    by (simp only: s cfg)
  have d: "deck (tr_deck ten_chosen) = [0, 1, 2, 3]"
    by code_simp
  have sp: "deck (tr_sprd ten_chosen) = [0, 1, 2]"
    by code_simp
  have h2: "length (deck (tr_deck ten_chosen)) < length ?cfg"
    by (simp add: d)
  have h3: "distinct (deck (tr_deck ten_chosen))"
    by (simp add: d)
  note r = show_spread_short [OF h1 h2]
  have r1: "snd (show_spread ten_chosen) = Inl IndexError"
    using r by blast
  have r2: "deck (tr_sprd (fst (show_spread ten_chosen))) = [0, 1, 2, 0, 1, 2, 3]"
    using r [THEN conjunct2, THEN conjunct2, THEN conjunct1] by (simp add: d sp)
  have reg: "min_coord (cards (fst (show_spread ten_chosen)) (deck (tr_deck ten_chosen) ! 3)) =
        map_prod Some Some (fst (spec_region (CELL_SZ ! 0) (CELL_SZ ! 1) CELL_PAD (?cfg ! 3))) \<and>
      max_coord (cards (fst (show_spread ten_chosen)) (deck (tr_deck ten_chosen) ! 3)) =
        map_prod Some Some (snd (spec_region (CELL_SZ ! 0) (CELL_SZ ! 1) CELL_PAD (?cfg ! 3)))"
  proof -
    have "3 < length (deck (tr_deck ten_chosen))"
      by (simp add: d)
    with r h3 show ?thesis
      by blast
  qed
  have at3: "deck (tr_deck ten_chosen) ! 3 = 3" "?cfg ! 3 = (1, 3, ''4. Root foundation'')"
    by (simp_all add: d)
  have r3: "min_coord (cards (fst (show_spread ten_chosen)) 3) = (Some 250, Some 460)"
    using reg unfolding at3 by (simp add: spec_region_def CELL_SZ_def CELL_PAD_def)
  have r4: "max_coord (cards (fst (show_spread ten_chosen)) 3) = (Some 470, Some 590)"
    using reg unfolding at3 by (simp add: spec_region_def CELL_SZ_def CELL_PAD_def)
  have h2': "length (deck (tr_deck ten_chosen)) < 10"
    by (simp add: d)
  have e: "map_of SPREAD_DEFN (strv_sprd ten_chosen) = map_of SPREAD_DEFN ''10 Card Celtic Cross''"
    by (simp only: s)
  show ?thesis
    using e h2' h3 r1 r2 r3 r4 by (intro conjI)
qed

text \<open>
  C9 fails on the code: \<^verbatim>\<open>show_spread\<close> never empties the spread, so a second deal of the
  three-card spread leaves six placements, the three of the first deal and three more.
\<close>

theorem show_spread_accumulates:
  "map_of SPREAD_DEFN (strv_sprd dealt_once) =
     Some [(0, 3/2, ''1. Past''), (3/2, 3/2, ''2. Present''), (3, 3/2, ''3. Future'')] \<and>
   deck (tr_sprd dealt_once) = [0, 1, 2] \<and>
   snd (show_spread dealt_once) = Inr () \<and>
   deck (tr_sprd dealt_twice) = [0, 1, 2, 0, 1, 2]"
  by code_simp

section \<open>Clicking on the spread\<close>

lemma inside_placed:
  assumes "min_coord c = (Some a, Some b)" and "max_coord c = (Some a', Some b')"
  shows "inside (x, y) c = Inr (a < of_int x \<and> of_int x < a' \<and> b < of_int y \<and> of_int y < b')"
  using assms by (simp add: inside_def py_and_def py_gt_def py_lt_def)

lemma click_loop:
  assumes "deck (tr_sprd w) = sp" and "cards w = st"
    and "\<forall>i \<in> set ns. i < length sp \<and> inside ev (st (sp ! i)) = Inr (hit i)"
  shows "for_each ns (click_card ev) w =
     (if filter hit ns = [] then w
      else w\<lparr>at_card_ix := Some (last (filter hit ns)),
             pop_note := pop_note w @ map (\<lambda>i. sp ! i) (filter hit ns)\<rparr>,
      Inr ())"
  using assms
proof (induction ns arbitrary: w)
  case Nil
  then show ?case by simp
next
  case (Cons i ns)
  then have i: "i < length sp" and h: "inside ev (st (sp ! i)) = Inr (hit i)"
    and rest: "\<forall>j \<in> set ns. j < length sp \<and> inside ev (st (sp ! j)) = Inr (hit j)"
    by simp_all
  show ?case
  proof (cases "hit i")
    case True
    let ?w1 = "w\<lparr>at_card_ix := Some i, pop_note := pop_note w @ [sp ! i]\<rparr>"
    have step: "click_card ev i w = (?w1, Inr ())"
      using True h i Cons.prems(1,2) by (simp add: click_card_def popup_card_note_def)
    have "deck (tr_sprd ?w1) = sp" and "cards ?w1 = st"
      using Cons.prems(1,2) by simp_all
    from Cons.IH [OF this rest] step True show ?thesis
      by simp
  next
    case False
    have step: "click_card ev i w = (w, Inr ())"
      using False h Cons.prems(1,2) by (simp add: click_card_def)
    from Cons.IH [OF Cons.prems(1,2) rest] step False show ?thesis
      by simp
  qed
qed

lemma filter_eq_upt:
  "k < n \<Longrightarrow> filter (\<lambda>i. i = k) [0..<n] = [k]"
  by (induction n) (auto simp: less_Suc_eq)

text \<open>
  C4, as stated, fails where several placements contain the point: the loop of
  \<^verbatim>\<open>on_click\<close> does not stop at the first hit, so it opens a note dialogue for every hit
  and leaves the index of the last one selected. After two deals of the three-card spread
  placements 0 and 3 are the same card, and a click inside its region selects index 3.
\<close>

theorem on_click_counterexample:
  "deck (tr_sprd dealt_twice) = [0, 1, 2, 0, 1, 2] \<and>
   inside (100, 300) (cards dealt_twice (deck (tr_sprd dealt_twice) ! 0)) = Inr True \<and>
   inside (100, 300) (cards dealt_twice (deck (tr_sprd dealt_twice) ! 3)) = Inr True \<and>
   snd (on_click (100, 300) dealt_twice) = Inr () \<and>
   at_card_ix (fst (on_click (100, 300) dealt_twice)) = Some 3 \<and>
   pop_note (fst (on_click (100, 300) dealt_twice)) = [0, 0]"
  by code_simp

text \<open>
  C4, amended. Hit-testing compares the point with every placement's region, strictly on
  both axes (\<open>min < point < max\<close>). When exactly one placement's region contains the
  point, that placement's index is selected and its note dialogue opens; when no region
  contains the point nothing is selected: no dialogue opens and the session, the stored
  index included, stays as it was.
\<close>

theorem on_click_single_hit:
  "(k < length (deck (tr_sprd w)) \<and>
    (\<forall>i < length (deck (tr_sprd w)). inside ev (cards w (deck (tr_sprd w) ! i)) = Inr (i = k))
    \<longrightarrow> on_click ev w =
          (w\<lparr>at_card_ix := Some k, pop_note := pop_note w @ [deck (tr_sprd w) ! k]\<rparr>, Inr ())) \<and>
   ((\<forall>i < length (deck (tr_sprd w)). inside ev (cards w (deck (tr_sprd w) ! i)) = Inr False)
    \<longrightarrow> on_click ev w = (w, Inr ())) \<and>
   (min_coord c = (Some a, Some b) \<and> max_coord c = (Some a', Some b')
    \<longrightarrow> inside (x, y) c =
          Inr (a < of_int x \<and> of_int x < a' \<and> b < of_int y \<and> of_int y < b'))"
proof (intro conjI impI)
  let ?sp = "deck (tr_sprd w)"
  assume a: "k < length ?sp \<and> (\<forall>i < length ?sp. inside ev (cards w (?sp ! i)) = Inr (i = k))"
  then have "\<forall>i \<in> set [0..<length ?sp]. i < length ?sp \<and> inside ev (cards w (?sp ! i)) = Inr (i = k)"
    by simp
  from click_loop [OF refl refl this] a show
    "on_click ev w = (w\<lparr>at_card_ix := Some k, pop_note := pop_note w @ [?sp ! k]\<rparr>, Inr ())"
    by (simp add: on_click_def filter_eq_upt)
next
  let ?sp = "deck (tr_sprd w)"
  assume "\<forall>i < length ?sp. inside ev (cards w (?sp ! i)) = Inr False"
  then have "\<forall>i \<in> set [0..<length ?sp]. i < length ?sp \<and> inside ev (cards w (?sp ! i)) = Inr ((\<lambda>_. False) i)"
    by simp
  from click_loop [OF refl refl this] show "on_click ev w = (w, Inr ())"
    by (simp add: on_click_def)
next
  assume "min_coord c = (Some a, Some b) \<and> max_coord c = (Some a', Some b')"
  then show "inside (x, y) c = Inr (a < of_int x \<and> of_int x < a' \<and> b < of_int y \<and> of_int y < b')"
    by (simp add: inside_placed)
qed

theorem on_click_single_hit_witness:
  "deck (tr_sprd dealt_once) = [0, 1, 2] \<and>
   min_coord (cards dealt_once 0) = (Some 10, Some 235) \<and>
   max_coord (cards dealt_once 0) = (Some 230, Some 365) \<and>
   inside (100, 300) (cards dealt_once 0) = Inr True \<and>
   inside (100, 300) (cards dealt_once 1) = Inr False \<and>
   inside (100, 300) (cards dealt_once 2) = Inr False \<and>
   on_click (100, 300) dealt_once = (dealt_once\<lparr>at_card_ix := Some 0, pop_note := [0]\<rparr>, Inr ()) \<and>
   on_click (100, 100) dealt_once = (dealt_once, Inr ())"
proof -
  have sp: "deck (tr_sprd dealt_once) = [0, 1, 2]"
    by code_simp
  have pn: "pop_note dealt_once = []"
    by code_simp
  have mn: "min_coord (cards dealt_once 0) = (Some 10, Some 235)"
    by code_simp
  have mx: "max_coord (cards dealt_once 0) = (Some 230, Some 365)"
    by code_simp
  have i0: "inside (100, 300) (cards dealt_once 0) = Inr True"
    by code_simp
  have i1: "inside (100, 300) (cards dealt_once 1) = Inr False"
    by code_simp
  have i2: "inside (100, 300) (cards dealt_once 2) = Inr False"
    by code_simp
  have o0: "inside (100, 100) (cards dealt_once 0) = Inr False"
    by code_simp
  have o1: "inside (100, 100) (cards dealt_once 1) = Inr False"
    by code_simp
  have o2: "inside (100, 100) (cards dealt_once 2) = Inr False"
    by code_simp
  have hit: "0 < length (deck (tr_sprd dealt_once)) \<and>
      (\<forall>i < length (deck (tr_sprd dealt_once)).
         inside (100, 300) (cards dealt_once (deck (tr_sprd dealt_once) ! i)) = Inr (i = 0))"
    using i0 i1 i2 by (simp add: sp less_Suc_eq numeral_3_eq_3)
  have miss: "\<forall>i < length (deck (tr_sprd dealt_once)).
         inside (100, 100) (cards dealt_once (deck (tr_sprd dealt_once) ! i)) = Inr False"
    using o0 o1 o2 by (simp add: sp less_Suc_eq numeral_3_eq_3)
  have c1: "on_click (100, 300) dealt_once =
      (dealt_once\<lparr>at_card_ix := Some 0, pop_note := [0]\<rparr>, Inr ())"
    using on_click_single_hit [of 0 dealt_once "(100, 300)", THEN conjunct1] hit
    by (simp add: sp pn)
  have c2: "on_click (100, 100) dealt_once = (dealt_once, Inr ())"
    using on_click_single_hit [of 0 dealt_once "(100, 100)", THEN conjunct2, THEN conjunct1] miss
    by blast
  show ?thesis
    using sp mn mx i0 i1 i2 c1 c2 by (intro conjI)
qed

lemma export_row_cell:
  assumes "i_card < length (deck (tr_deck w))" and "sprd_config ! i_card = (col, row, lbl)"
  shows "export_row sprd_config w i_card rows =
     (rows @ [[lbl, TrCard_str (cards w (deck (tr_deck w) ! i_card))]], Inr ())"
  using assms by (simp add: export_row_def TrCard_str_def)

text \<open>
  C2 fails on the code: after a shuffle and a deal of three cards, one of them reversed,
  the export writes the header row only and ends in \<^verbatim>\<open>NameError\<close>. The last conjunct runs
  the export loop on the definition that \<^verbatim>\<open>show_spread\<close> dealt: these are the rows the
  claim describes, which the code never writes.
\<close>

theorem export_stops_at_header:
  "deck (tr_deck reading) = [1, 3, 0, 2] \<and>
   deck (tr_sprd reading) = [1, 3, 0] \<and>
   map (\<lambda>r. is_rev (cards reading r)) [1, 3, 0] = [True, False, False] \<and>
   prompt_quit ''reading.csv'' reading =
     (Some [[''PyTarot reading'', ''3 Card Simple Quick'', ''2021-04-07 12:05:00'',
             ''What should I do next?'']],
      Inl (NameError ''sprd_config'')) \<and>
   for_each [0..<3]
     (export_row [(0, 3/2, ''1. Past''), (3/2, 3/2, ''2. Present''), (3, 3/2, ''3. Future'')] reading)
     [[''PyTarot reading'', ''3 Card Simple Quick'', ''2021-04-07 12:05:00'',
       ''What should I do next?'']] =
     ([[''PyTarot reading'', ''3 Card Simple Quick'', ''2021-04-07 12:05:00'',
        ''What should I do next?''],
       [''1. Past'', ''II Reversed''],
       [''2. Present'', ''IIII''],
       [''3. Future'', ''I'']],
      Inr ())"
  by code_simp

end
